theory Spec2Isabelle
  imports Complex_Main "HOL-Library.AList"
begin

section \<open>Data model of the validator\<close>

text \<open>
  A module of the subnet as \<^verbatim>\<open>get_map_modules\<close> reports it: the fields the validator
  reads. An address may be absent (\<^verbatim>\<open>None\<close>).
\<close>

record miner =
  uid :: int
  key :: string
  address :: "string option"
  incentive :: int
  dividends :: int

text \<open>One entry of the weights file: \<^verbatim>\<open>{"ss58": ..., "score": ...}\<close>. Python floats are
  modelled as exact reals: the rounding and the overflow of doubles are not modelled, so
  the theorems below rest on the arithmetic only at scores where the doubles of the code
  give the same weights, and otherwise on the keys and the error branches.\<close>

record score_record =
  ss58 :: string
  score :: real

text \<open>
  Modelled from the spec: the module \<^verbatim>\<open>weights_io\<close> is not among the sources. Its
  \<^verbatim>\<open>read_weight_file\<close> and \<^verbatim>\<open>write_weight_file\<close> are the durable store's \<^verbatim>\<open>read\<close>
  and \<^verbatim>\<open>write\<close> with full-replace semantics, so the file is the dictionary last
  written. The dictionary is an association list in insertion order; its keys are the
  decimal strings \<^verbatim>\<open>str(uid)\<close>, each represented by the integer it prints.
\<close>

type_synonym weights_file = "(int \<times> score_record) list"

section \<open>Eligibility filter\<close>

text \<open>\<^verbatim>\<open>get_miner_ip_port\<close>: the chained comparison \<^verbatim>\<open>a == b == 0\<close> is
  \<^verbatim>\<open>a == b and b == 0\<close>.\<close>

definition get_miner_ip_port :: "miner list \<Rightarrow> miner list" where
  "get_miner_ip_port modules_to_list =
     filter (\<lambda>module. (incentive module = dividends module \<and> dividends module = 0)
                      \<or> incentive module > dividends module) modules_to_list"

section \<open>Coverage partition\<close>

text \<open>
  The loop of \<^verbatim>\<open>get_miners_to_query\<close>. \<open>scored_miners\<close> is the dictionary read once
  before the loop and never changed; \<open>wfile\<close> is the weights file, which the loop
  rewrites when it deletes a record whose key differs; \<open>counter\<close> counts the appended
  miners, and the loop stops right after the eighth.
\<close>

fun miners_loop ::
  "weights_file \<Rightarrow> miner list \<Rightarrow> weights_file \<Rightarrow> miner list \<Rightarrow> miner list \<Rightarrow> nat
     \<Rightarrow> weights_file \<times> miner list \<times> miner list" where
  "miners_loop scored_miners [] wfile remaining_miners miners_to_query counter =
     (wfile, remaining_miners, miners_to_query)"
| "miners_loop scored_miners (m # ms) wfile remaining_miners miners_to_query counter =
     (case map_of scored_miners (uid m) of
        Some r \<Rightarrow>
          (let wfile' = (if key m \<noteq> ss58 r
                        then (if map_of wfile (uid m) \<noteq> None
                              then AList.delete (uid m) wfile else wfile)
                        else wfile)
           in if key m = ss58 r
              then miners_loop scored_miners ms wfile'
                     (filter (\<lambda>rm. uid rm \<noteq> uid m) remaining_miners) miners_to_query counter
              else if counter + 1 = 8
                   then (wfile', remaining_miners, miners_to_query @ [m])
                   else miners_loop scored_miners ms wfile' remaining_miners
                          (miners_to_query @ [m]) (counter + 1))
      | None \<Rightarrow>
          (if counter + 1 = 8
           then (wfile, remaining_miners, miners_to_query @ [m])
           else miners_loop scored_miners ms wfile remaining_miners
                  (miners_to_query @ [m]) (counter + 1)))"

text \<open>\<^verbatim>\<open>get_miners_to_query\<close> returns \<open>(remaining_miners, miners_to_query)\<close>; the
  model returns the rewritten file as well.\<close>

definition get_miners_to_query ::
  "weights_file \<Rightarrow> miner list \<Rightarrow> weights_file \<times> miner list \<times> miner list" where
  "get_miners_to_query wfile miners = miners_loop wfile miners wfile miners [] 0"

text \<open>A miner is covered when the file read at the start of the step holds a record
  under its uid with the same key.\<close>

definition covered :: "weights_file \<Rightarrow> miner \<Rightarrow> bool" where
  "covered scored_miners m =
     (case map_of scored_miners (uid m) of Some r \<Rightarrow> key m = ss58 r | None \<Rightarrow> False)"

definition candidates :: "weights_file \<Rightarrow> miner list \<Rightarrow> miner list" where
  "candidates scored_miners miners = filter (\<lambda>m. \<not> covered scored_miners m) miners"

section \<open>Score normalisation and weights\<close>

datatype py_error = ValueError | ZeroDivisionError | TypeError | KeyError | VoteError

text \<open>
  \<^verbatim>\<open>normalize_scores\<close>: \<^verbatim>\<open>min\<close> and \<^verbatim>\<open>max\<close> of an empty sequence raise
  \<^verbatim>\<open>ValueError\<close>.
\<close>

definition normalize_scores :: "real list \<Rightarrow> bool \<Rightarrow> py_error + real list" where
  "normalize_scores scores scale =
     (if scores = [] then Inl ValueError
      else
        let min_score = Min (set scores); max_score = Max (set scores)
        in if min_score = max_score then Inr (replicate (length scores) 1)
           else
             let normalized_scores =
                   map (\<lambda>score. (score - min_score) / (max_score - min_score)) scores
             in Inr (if scale
                     then map (\<lambda>score. score * (1 - min_score) + min_score) normalized_scores
                     else normalized_scores))"

text \<open>
  Modelled from the spec: the module \<^verbatim>\<open>sigmoid\<close> is not among the sources. Its
  \<^verbatim>\<open>sigmoid_rewards\<close> applies a squashing transform to the score of every worker and
  keeps the keys; the curve \<open>squash\<close> is a parameter.
\<close>

definition sigmoid_rewards :: "(real \<Rightarrow> real) \<Rightarrow> ('k \<times> real) list \<Rightarrow> ('k \<times> real) list" where
  "sigmoid_rewards squash score_dict = map (\<lambda>(k, v). (k, squash v)) score_dict"

text \<open>
  The first half of \<^verbatim>\<open>set_weights\<close>, up to the dictionary \<^verbatim>\<open>weighted_scores\<close> that is
  submitted. \<open>s_dict\<close> is a dictionary, an association list with distinct keys. The
  division is reached only with a non-empty dictionary and raises
  \<^verbatim>\<open>ZeroDivisionError\<close> when the sum is zero.
\<close>

definition weighted_scores ::
  "(real \<Rightarrow> real) \<Rightarrow> 'k option \<Rightarrow> ('k \<times> real) list \<Rightarrow> py_error + ('k \<times> real) list" where
  "weighted_scores squash self_uid s_dict =
     (case normalize_scores (map snd s_dict) False of
        Inl e \<Rightarrow> Inl e
      | Inr normal_scores \<Rightarrow>
          (let score_dict = zip (map fst s_dict) normal_scores;
              sigmoided_scores = sigmoid_rewards squash score_dict;
              scores = sum_list (map snd sigmoided_scores)
          in if scores = 0 then Inl ZeroDivisionError
             else
               let weighted = map (\<lambda>(k, v). (k, v * 1000 / scores)) sigmoided_scores
               in (case normalize_scores (map snd weighted) False of
                     Inl e \<Rightarrow> Inl e
                   | Inr normal \<Rightarrow>
                       (let weighted' = filter (\<lambda>(k, v). v \<noteq> 0) (zip (map fst weighted) normal)
                        in Inr (case self_uid of
                                  None \<Rightarrow> weighted'
                                | Some u \<Rightarrow> if map_of weighted' u \<noteq> None
                                            then AList.delete u weighted' else weighted')))))"

section \<open>The validator and its environment\<close>

text \<open>
  A key of a Python dictionary of the step: the weights file read back has the strings
  \<^verbatim>\<open>str(uid)\<close> as keys (\<open>StrKey\<close> of the integer printed), \<^verbatim>\<open>query_map_key\<close> has
  integers.
\<close>

datatype dict_key = StrKey int | IntKey int

type_synonym prompt = "string \<times> string \<times> string"

text \<open>What the validator does to the outside, in order.\<close>

datatype event = Vote nat "dict_key list" "real list" | Sleep real

record validator =
  client :: nat
  val_ss58 :: string
  self_uid :: "int option"
  wfile :: weights_file
  events :: "event list"

text \<open>
  Everything one step obtains from outside the source file: the chain
  (\<^verbatim>\<open>get_map_modules\<close>, \<^verbatim>\<open>query_map_key\<close>, \<^verbatim>\<open>vote\<close> by attempt and node,
  \<^verbatim>\<open>get_node_url\<close>), the task, the miners (\<^verbatim>\<open>ModuleClient.call\<close>, a reply dictionary or
  an exception), the scorer, the squashing curve, the draw of \<^verbatim>\<open>random.random()\<close> and
  Python's \<^verbatim>\<open>int\<close> on a string (\<open>None\<close> for its \<^verbatim>\<open>ValueError\<close>).
\<close>

record env =
  modules :: "miner list"
  modules_keys :: "(int \<times> string) list"
  miner_prompt :: prompt
  py_int :: "string \<Rightarrow> int option"
  call :: "string option \<Rightarrow> int \<Rightarrow> string \<Rightarrow> prompt \<Rightarrow> py_error + (string \<times> string) list"
  get_scores :: "string \<Rightarrow> string \<Rightarrow> string option list \<Rightarrow> py_error + real list"
  squash :: "real \<Rightarrow> real"
  vote :: "nat \<Rightarrow> nat \<Rightarrow> bool"
  node_url :: nat
  rnd :: real

section \<open>Dispatch\<close>

text \<open>\<^verbatim>\<open>str.split\<close> with a separator.\<close>

fun split_sep :: "char \<Rightarrow> string \<Rightarrow> string list" where
  "split_sep c [] = [[]]"
| "split_sep c (x # xs) =
     (if x = c then [] # split_sep c xs
      else (case split_sep c xs of [] \<Rightarrow> [[x]] | p # ps \<Rightarrow> (x # p) # ps))"

definition split_ip_port :: "string option \<Rightarrow> string option \<times> string option" where
  "split_ip_port ip_port =
     (case ip_port of
        None \<Rightarrow> (None, None)
      | Some s \<Rightarrow>
          if s = [] then (None, None)
          else (case split_sep CHR '':'' s of
                  [ip, port] \<Rightarrow> (Some ip, Some port)
                | _ \<Rightarrow> (None, None)))"

text \<open>
  \<^verbatim>\<open>_get_miner_prediction\<close>. The guard compares with the string \<^verbatim>\<open>"None"\<close>;
  \<^verbatim>\<open>int(module_port)\<close> stands before the \<^verbatim>\<open>try\<close>, so its \<^verbatim>\<open>TypeError\<close> (on
  \<^verbatim>\<open>None\<close>) and \<^verbatim>\<open>ValueError\<close> leave the function; an exception of the call, or a
  reply without \<^verbatim>\<open>"answer"\<close>, is caught and gives \<^verbatim>\<open>None\<close>.
\<close>

definition get_miner_prediction :: "env \<Rightarrow> prompt \<Rightarrow> miner \<Rightarrow> py_error + string option" where
  "get_miner_prediction e prompt miner_info =
     (case split_ip_port (address miner_info) of
        (module_ip, module_port) \<Rightarrow>
          if module_ip = Some ''None'' \<or> module_port = Some ''None'' then Inr (Some [])
          else (case module_port of
                 None \<Rightarrow> Inl TypeError
               | Some p \<Rightarrow>
                   (case py_int e p of
                      None \<Rightarrow> Inl ValueError
                    | Some port \<Rightarrow>
                        (case call e module_ip port (key miner_info) prompt of
                           Inl _ \<Rightarrow> Inr None
                         | Inr miner_answer \<Rightarrow>
                             (case map_of miner_answer ''answer'' of
                                None \<Rightarrow> Inr None
                              | Some a \<Rightarrow> Inr (Some a))))))"

text \<open>
  \<^verbatim>\<open>executor.map\<close> and \<^verbatim>\<open>[*it]\<close>: the results are read in the order of the batch, and
  reading the result of a call that raised raises its exception.
\<close>

fun executor_map :: "env \<Rightarrow> prompt \<Rightarrow> miner list \<Rightarrow> py_error + string option list" where
  "executor_map e prompt [] = Inr []"
| "executor_map e prompt (m # ms) =
     (case get_miner_prediction e prompt m of
        Inl err \<Rightarrow> Inl err
      | Inr a \<Rightarrow>
          (case executor_map e prompt ms of
             Inl err \<Rightarrow> Inl err
           | Inr answers \<Rightarrow> Inr (a # answers)))"

section \<open>Submission, step and loop\<close>

text \<open>
  \<^verbatim>\<open>set_weights\<close>: the weights, then \<^verbatim>\<open>client.vote\<close>; when it raises, a sleep of
  \<^verbatim>\<open>random.uniform(1, 2)\<close> (which is \<^verbatim>\<open>1 + (2 - 1) * random()\<close>), a client on the
  node \<^verbatim>\<open>get_node_url\<close> gives, and a second \<^verbatim>\<open>vote\<close> outside any \<^verbatim>\<open>try\<close>.
  \<^verbatim>\<open>self.uid\<close> is an integer key.
\<close>

definition set_weights ::
  "env \<Rightarrow> validator \<Rightarrow> (dict_key \<times> real) list \<Rightarrow> (py_error + unit) \<times> validator" where
  "set_weights e v s_dict =
     (case weighted_scores (squash e) (map_option IntKey (self_uid v)) s_dict of
        Inl err \<Rightarrow> (Inl err, v)
      | Inr ws \<Rightarrow>
          (let uids = map fst ws;
               weights = map snd ws;
               v1 = v\<lparr>events := events v @ [Vote (client v) uids weights]\<rparr>
           in if vote e 0 (client v1) then (Inr (), v1)
              else
                (let sleepy_time = 1 + (2 - 1) * rnd e;
                     v2 = v1\<lparr>events := events v1 @ [Sleep sleepy_time], client := node_url e\<rparr>;
                     v3 = v2\<lparr>events := events v2 @ [Vote (client v2) uids weights]\<rparr>
                 in if vote e 1 (client v3) then (Inr (), v3) else (Inl VoteError, v3))))"

text \<open>The loop that fills \<^verbatim>\<open>data_to_write\<close>: \<^verbatim>\<open>score_dict[uid]\<close> raises
  \<^verbatim>\<open>KeyError\<close> for a uid the scorer gave no score.\<close>

fun data_to_write :: "(int \<times> real) list \<Rightarrow> miner list \<Rightarrow> weights_file \<Rightarrow> py_error + weights_file" where
  "data_to_write score_dict [] d = Inr d"
| "data_to_write score_dict (item # items) d =
     (case map_of score_dict (uid item) of
        None \<Rightarrow> Inl KeyError
      | Some s \<Rightarrow>
          data_to_write score_dict items (AList.update (uid item) \<lparr>ss58 = key item, score = s\<rparr> d))"

text \<open>
  The last block of \<^verbatim>\<open>validate_step\<close>, entered when \<^verbatim>\<open>remaining_miners\<close> is empty:
  the scores of the file, under its string keys, go to \<^verbatim>\<open>set_weights\<close>, and the file
  is reset when \<^verbatim>\<open>set_weights\<close> returns.
\<close>

definition finalize_cycle :: "env \<Rightarrow> validator \<Rightarrow> (py_error + unit) \<times> validator" where
  "finalize_cycle e v =
     (case set_weights e v (map (\<lambda>(u, d). (StrKey u, score d)) (wfile v)) of
        (Inl err, v4) \<Rightarrow> (Inl err, v4)
      | (Inr _, v4) \<Rightarrow> (Inr (), v4\<lparr>wfile := []\<rparr>))"

text \<open>
  \<^verbatim>\<open>validate_step\<close>. The result is the exception that left the step, if any, and the
  validator as the step left it: what was written to the file before an exception stays
  written.
\<close>

definition validate_step :: "env \<Rightarrow> validator \<Rightarrow> (py_error + unit) \<times> validator" where
  "validate_step e v =
     (let miners = get_miner_ip_port (modules e)
      in if val_ss58 v \<notin> snd ` set (modules_keys e) then (Inr (), v)
         else
           (let v1 = v\<lparr>self_uid := fold (\<lambda>(u, s) acc. if s = val_ss58 v then Some u else acc)
                                       (modules_keys e) (self_uid v)\<rparr>
            in case get_miners_to_query (wfile v1) miners of
                 (wfile', remaining_miners, miners_to_query) \<Rightarrow>
                   (let v2 = v1\<lparr>wfile := wfile'\<rparr>
                    in case miner_prompt e of
                         (mp, source_language, target_language) \<Rightarrow>
                           (case executor_map e (mp, source_language, target_language) miners_to_query of
                              Inl err \<Rightarrow> (Inl err, v2)
                            | Inr miner_answers \<Rightarrow>
                                (case get_scores e mp target_language miner_answers of
                                   Inl err \<Rightarrow> (Inl err, v2)
                                 | Inr scores \<Rightarrow>
                                     (case data_to_write
                                             (fold (\<lambda>(u, s) d. AList.update u s d)
                                                (zip (map uid miners_to_query) scores) [])
                                             miners_to_query [] of
                                        Inl err \<Rightarrow> (Inl err, v2)
                                      | Inr dtw \<Rightarrow>
                                          (let v3 = v2\<lparr>wfile := fold (\<lambda>(k, d) cw. AList.update k d cw)
                                                                   dtw (wfile v2)\<rparr>
                                           in if length remaining_miners = 0
                                              then finalize_cycle e v3
                                              else (Inr (), v3))))))))"

text \<open>
  \<^verbatim>\<open>validation_loop\<close>: \<^verbatim>\<open>while True\<close> with no \<^verbatim>\<open>try\<close>. The list gives the
  environment of each tick; the loop ends before the list does only by an exception of a
  step, which is then the exception of the loop.
\<close>

fun validation_loop :: "env list \<Rightarrow> validator \<Rightarrow> (py_error + unit) \<times> validator" where
  "validation_loop [] v = (Inr (), v)"
| "validation_loop (e # es) v =
     (case validate_step e v of
        (Inl err, v') \<Rightarrow> (Inl err, v')
      | (Inr _, v') \<Rightarrow> validation_loop es v')"

text \<open>Inputs for the examples.\<close>

definition mk_miner :: "int \<Rightarrow> string \<Rightarrow> miner" where
  "mk_miner u k =
     \<lparr>uid = u, key = k, address = Some ''10.0.0.1:8080'', incentive = 0, dividends = 0\<rparr>"

definition mk_record :: "string \<Rightarrow> real \<Rightarrow> score_record" where
  "mk_record k s = \<lparr>ss58 = k, score = s\<rparr>"

definition example_env :: env where
  "example_env =
     \<lparr>modules = [mk_miner 1 ''a''],
      modules_keys = [(0, ''val''), (1, ''a'')],
      miner_prompt = (''hello'', ''en'', ''fr''),
      py_int = (\<lambda>s. if s = ''8080'' then Some 8080 else None),
      call = (\<lambda>ip port k p. Inr [(''answer'', ''bonjour'')]),
      get_scores = (\<lambda>p t answers. Inr (map (\<lambda>a. 1) answers)),
      squash = (\<lambda>x. x + 1),
      vote = (\<lambda>n c. True),
      node_url = 1,
      rnd = 1 / 2\<rparr>"

definition example_validator :: validator where
  "example_validator =
     \<lparr>client = 0, val_ss58 = ''val'', self_uid = None, wfile = [], events = []\<rparr>"

definition failing_env :: env where
  "failing_env = example_env\<lparr>vote := (\<lambda>n c. False)\<rparr>"

definition covered_validator :: validator where
  "covered_validator = example_validator\<lparr>self_uid := Some 0, wfile := [(1, mk_record ''a'' 1)]\<rparr>"

definition unreachable_env :: env where
  "unreachable_env =
     example_env\<lparr>call := (\<lambda>ip port k p. Inl ValueError),
                  get_scores := (\<lambda>p t answers.
                     Inr (map (\<lambda>a. case a of None \<Rightarrow> 0 | Some x \<Rightarrow> 1) answers))\<rparr>"

definition self_scored_env :: env where
  "self_scored_env = example_env\<lparr>modules := [mk_miner 0 ''val'', mk_miner 1 ''a'']\<rparr>"

definition self_scored_validator :: validator where
  "self_scored_validator =
     example_validator\<lparr>wfile := [(0, mk_record ''val'' 2), (1, mk_record ''a'' 1)]\<rparr>"

definition nine_miners :: "miner list" where
  "nine_miners = map (\<lambda>u. mk_miner u ''k'') [1, 2, 3, 4, 5, 6, 7, 8, 9]"

text \<open>The file after the loop has looked at a miner that is not covered: its record, if
  the file read at the start had one, is deleted.\<close>

definition purged :: "weights_file \<Rightarrow> miner \<Rightarrow> weights_file \<Rightarrow> weights_file" where
  "purged sc m fl = (if map_of sc (uid m) = None then fl else AList.delete (uid m) fl)"

text \<open>
  The stages of \<^verbatim>\<open>set_weights\<close> as functions of one raw score: what
  \<^verbatim>\<open>normalize_scores\<close> does to a member of a non-empty list, the squashed score, the
  score rescaled to the budget of 1000, and the weight after the second normalisation.
\<close>

definition unit_scale :: "real list \<Rightarrow> real \<Rightarrow> real" where
  "unit_scale xs x =
     (if Min (set xs) = Max (set xs) then 1
      else (x - Min (set xs)) / (Max (set xs) - Min (set xs)))"

definition squashed :: "(real \<Rightarrow> real) \<Rightarrow> ('k \<times> real) list \<Rightarrow> real \<Rightarrow> real" where
  "squashed sq d v = sq (unit_scale (map snd d) v)"

definition rescaled :: "(real \<Rightarrow> real) \<Rightarrow> ('k \<times> real) list \<Rightarrow> real \<Rightarrow> real" where
  "rescaled sq d v = squashed sq d v * 1000 / sum_list (map (\<lambda>(k, v). squashed sq d v) d)"

definition final_weight :: "(real \<Rightarrow> real) \<Rightarrow> ('k \<times> real) list \<Rightarrow> real \<Rightarrow> real" where
  "final_weight sq d v = unit_scale (map (\<lambda>(k, v). rescaled sq d v) d) (rescaled sq d v)"

definition drop_self :: "'k option \<Rightarrow> ('k \<times> real) list \<Rightarrow> ('k \<times> real) list" where
  "drop_self su ws = (case su of None \<Rightarrow> ws | Some u \<Rightarrow> AList.delete u ws)"

section \<open>Properties of the coverage partition\<close>

lemma delete_absent: "map_of fl k = None \<Longrightarrow> AList.delete k fl = fl"
  by (simp add: map_of_eq_None_iff)

lemma miners_loop_covered:
  "covered sc m \<Longrightarrow>
   miners_loop sc (m # ms) fl rmn tq c =
     miners_loop sc ms fl (filter (\<lambda>rm. uid rm \<noteq> uid m) rmn) tq c"
  by (auto simp: covered_def split: option.splits)

lemma miners_loop_candidate:
  "\<not> covered sc m \<Longrightarrow>
   miners_loop sc (m # ms) fl rmn tq c =
     (if c + 1 = 8 then (purged sc m fl, rmn, tq @ [m])
      else miners_loop sc ms (purged sc m fl) rmn (tq @ [m]) (c + 1))"
  by (auto simp: covered_def purged_def Let_def delete_absent split: option.splits)

lemma miners_loop_batch:
  "counter < 8 \<Longrightarrow>
   snd (snd (miners_loop sc ms fl rmn tq counter)) = tq @ take (8 - counter) (candidates sc ms)"
proof (induction ms arbitrary: fl rmn tq counter)
  case Nil
  then show ?case by (simp add: candidates_def)
next
  case (Cons m ms)
  show ?case
  proof (cases "covered sc m")
    case True
    then show ?thesis using Cons
      by (simp add: miners_loop_covered candidates_def del: miners_loop.simps)
  next
    case False
    show ?thesis
    proof (cases "counter + 1 = 8")
      case True
      then have "8 - counter = Suc 0" by simp
      then show ?thesis using False True
        by (simp add: miners_loop_candidate candidates_def del: miners_loop.simps)
    next
      case c: False
      then have lt: "counter + 1 < 8" using Cons.prems by simp
      have "8 - counter = Suc (8 - (counter + 1))" using lt by simp
      then show ?thesis using False c Cons.IH[OF lt]
        by (simp add: miners_loop_candidate candidates_def del: miners_loop.simps)
    qed
  qed
qed

lemma miners_loop_remaining_subset:
  "set (fst (snd (miners_loop sc ms fl rmn tq counter))) \<subseteq> set rmn"
proof (induction ms arbitrary: fl rmn tq counter)
  case Nil
  then show ?case by simp
next
  case (Cons m ms)
  show ?case
  proof (cases "covered sc m")
    case True
    have "set (fst (snd (miners_loop sc ms fl (filter (\<lambda>rm. uid rm \<noteq> uid m) rmn) tq counter)))
            \<subseteq> set (filter (\<lambda>rm. uid rm \<noteq> uid m) rmn)"
      by (rule Cons.IH)
    then show ?thesis using True
      by (auto simp add: miners_loop_covered simp del: miners_loop.simps)
  next
    case False
    then show ?thesis using Cons.IH
      by (simp add: miners_loop_candidate del: miners_loop.simps)
  qed
qed

lemma miners_loop_remaining_keeps:
  "x \<in> set rmn \<Longrightarrow> (\<forall>m' \<in> set ms. covered sc m' \<longrightarrow> uid m' \<noteq> uid x) \<Longrightarrow>
   x \<in> set (fst (snd (miners_loop sc ms fl rmn tq counter)))"
proof (induction ms arbitrary: fl rmn tq counter)
  case Nil
  then show ?case by simp
next
  case (Cons m ms)
  show ?case
  proof (cases "covered sc m")
    case True
    with Cons.prems have "x \<in> set (filter (\<lambda>rm. uid rm \<noteq> uid m) rmn)" by auto
    then show ?thesis using True Cons.prems(2) Cons.IH
      by (simp add: miners_loop_covered del: miners_loop.simps)
  next
    case False
    then show ?thesis using Cons
      by (simp add: miners_loop_candidate del: miners_loop.simps)
  qed
qed

lemma miners_loop_remaining_no_break:
  "counter + length (candidates sc ms) < 8 \<Longrightarrow>
   fst (snd (miners_loop sc ms fl rmn tq counter)) =
     filter (\<lambda>rm. \<forall>m \<in> set ms. covered sc m \<longrightarrow> uid m \<noteq> uid rm) rmn"
proof (induction ms arbitrary: fl rmn tq counter)
  case Nil
  then show ?case by simp
next
  case (Cons m ms)
  show ?case
  proof (cases "covered sc m")
    case True
    then have "counter + length (candidates sc ms) < 8"
      using Cons.prems by (simp add: candidates_def)
    from Cons.IH[OF this] True show ?thesis
      by (auto simp add: miners_loop_covered simp del: miners_loop.simps intro!: filter_cong)
  next
    case False
    then have "(counter + 1) + length (candidates sc ms) < 8" "counter + 1 \<noteq> 8"
      using Cons.prems by (simp_all add: candidates_def)
    from Cons.IH[OF this(1)] this(2) False show ?thesis
      by (simp add: miners_loop_candidate del: miners_loop.simps)
  qed
qed

lemma map_of_purged_None: "map_of fl u = None \<Longrightarrow> map_of (purged sc m fl) u = None"
  by (simp add: purged_def AList.delete_conv')

lemma miners_loop_file_None:
  "map_of fl u = None \<Longrightarrow> map_of (fst (miners_loop sc ms fl rmn tq counter)) u = None"
proof (induction ms arbitrary: fl rmn tq counter)
  case Nil
  then show ?case by simp
next
  case (Cons m ms)
  show ?case
  proof (cases "covered sc m")
    case True
    then show ?thesis using Cons
      by (simp add: miners_loop_covered del: miners_loop.simps)
  next
    case False
    then show ?thesis using Cons.IH[OF map_of_purged_None[OF Cons.prems]] map_of_purged_None[OF Cons.prems]
      by (simp add: miners_loop_candidate del: miners_loop.simps)
  qed
qed

lemma miners_loop_file_other:
  "map_of (fst (miners_loop sc ms fl rmn tq counter)) u = None \<or>
   map_of (fst (miners_loop sc ms fl rmn tq counter)) u = map_of fl u"
proof (induction ms arbitrary: fl rmn tq counter)
  case Nil
  then show ?case by simp
next
  case (Cons m ms)
  show ?case
  proof (cases "covered sc m")
    case True
    then show ?thesis using Cons.IH
      by (simp add: miners_loop_covered del: miners_loop.simps)
  next
    case False
    have p: "map_of (purged sc m fl) u = None \<or> map_of (purged sc m fl) u = map_of fl u"
      by (simp add: purged_def AList.delete_conv')
    show ?thesis
    proof (cases "counter + 1 = 8")
      case True
      then show ?thesis using False p
        by (simp add: miners_loop_candidate del: miners_loop.simps)
    next
      case c: False
      from p show ?thesis
      proof
        assume "map_of (purged sc m fl) u = None"
        from miners_loop_file_None[OF this] show ?thesis using False c
          by (simp add: miners_loop_candidate del: miners_loop.simps)
      next
        assume e: "map_of (purged sc m fl) u = map_of fl u"
        show ?thesis
          using Cons.IH[of "purged sc m fl" rmn "tq @ [m]" "counter + 1"] False c e
          by (simp add: miners_loop_candidate del: miners_loop.simps)
      qed
    qed
  qed
qed

lemma miners_loop_file_kept:
  "(\<forall>m \<in> set ms. uid m = u \<longrightarrow> covered sc m \<or> map_of sc u = None) \<Longrightarrow>
   map_of (fst (miners_loop sc ms fl rmn tq counter)) u = map_of fl u"
proof (induction ms arbitrary: fl rmn tq counter)
  case Nil
  then show ?case by simp
next
  case (Cons m ms)
  show ?case
  proof (cases "covered sc m")
    case True
    then show ?thesis using Cons
      by (simp add: miners_loop_covered del: miners_loop.simps)
  next
    case False
    have p: "map_of (purged sc m fl) u = map_of fl u"
      using Cons.prems False by (auto simp: purged_def AList.delete_conv')
    show ?thesis using Cons.IH[of "purged sc m fl" rmn "tq @ [m]" "counter + 1"] Cons.prems False p
      by (simp add: miners_loop_candidate del: miners_loop.simps)
  qed
qed

lemma miners_loop_batch_purged:
  "x \<in> set (snd (snd (miners_loop sc ms fl rmn tq counter))) \<Longrightarrow> x \<notin> set tq \<Longrightarrow>
   (\<forall>u. map_of sc u = None \<longrightarrow> map_of fl u = None) \<Longrightarrow>
   map_of (fst (miners_loop sc ms fl rmn tq counter)) (uid x) = None"
proof (induction ms arbitrary: fl rmn tq counter)
  case Nil
  then show ?case by simp
next
  case (Cons m ms)
  show ?case
  proof (cases "covered sc m")
    case True
    then show ?thesis using Cons
      by (simp add: miners_loop_covered del: miners_loop.simps)
  next
    case False
    have pm: "map_of (purged sc m fl) (uid m) = None"
      using Cons.prems(3) by (simp add: purged_def AList.delete_conv')
    have inv: "\<forall>u. map_of sc u = None \<longrightarrow> map_of (purged sc m fl) u = None"
      using Cons.prems(3) by (simp add: map_of_purged_None)
    show ?thesis
    proof (cases "x = m")
      case True
      then show ?thesis using False pm miners_loop_file_None[OF pm]
        by (simp add: miners_loop_candidate del: miners_loop.simps)
    next
      case xm: False
      then have nt: "x \<notin> set (tq @ [m])" using Cons.prems(2) by simp
      show ?thesis
      proof (cases "counter + 1 = 8")
        case True
        then show ?thesis using False Cons.prems(1) nt
          by (simp add: miners_loop_candidate del: miners_loop.simps)
      next
        case c: False
        then have "x \<in> set (snd (snd (miners_loop sc ms (purged sc m fl) rmn (tq @ [m]) (counter + 1))))"
          using Cons.prems(1) False by (simp add: miners_loop_candidate del: miners_loop.simps)
        from Cons.IH[OF this nt inv] show ?thesis using False c
          by (simp add: miners_loop_candidate del: miners_loop.simps)
      qed
    qed
  qed
qed

lemma covered_same_uid:
  "distinct (map uid ms) \<Longrightarrow> x \<in> set ms \<Longrightarrow> m \<in> set ms \<Longrightarrow> uid m = uid x \<Longrightarrow> m = x"
  by (metis distinct_map inj_on_def)

lemma candidates_in_remaining:
  assumes "distinct (map uid miners)" and "x \<in> set (candidates fl miners)"
  shows "x \<in> set (fst (snd (get_miners_to_query fl miners)))"
proof -
  have x: "x \<in> set miners" "\<not> covered fl x" using assms(2) by (simp_all add: candidates_def)
  have "\<forall>m' \<in> set miners. covered fl m' \<longrightarrow> uid m' \<noteq> uid x"
    using covered_same_uid[OF assms(1) x(1)] x(2) by blast
  from miners_loop_remaining_keeps[OF x(1) this] show ?thesis
    by (simp add: get_miners_to_query_def)
qed

lemma remaining_no_break:
  assumes "distinct (map uid miners)" and "length (candidates fl miners) < 8"
  shows "fst (snd (get_miners_to_query fl miners)) = candidates fl miners"
proof -
  have "fst (snd (get_miners_to_query fl miners)) =
        filter (\<lambda>rm. \<forall>m \<in> set miners. covered fl m \<longrightarrow> uid m \<noteq> uid rm) miners"
    using miners_loop_remaining_no_break[of 0 fl miners] assms(2)
    by (simp add: get_miners_to_query_def)
  also have "\<dots> = candidates fl miners"
    unfolding candidates_def
    using covered_same_uid[OF assms(1)] by (intro filter_cong) auto
  finally show ?thesis .
qed

text \<open>
  Claim C2, as stated, fails: with one eligible miner and an empty weights file the miner
  is in \<open>remaining_miners\<close> and in \<open>miners_to_query\<close>, so the two are not disjoint.
\<close>

theorem partition_not_disjoint:
  "fst (snd (get_miners_to_query [] [mk_miner 1 ''a''])) = [mk_miner 1 ''a'']
   \<and> snd (snd (get_miners_to_query [] [mk_miner 1 ''a''])) = [mk_miner 1 ''a'']
   \<and> set (fst (snd (get_miners_to_query [] [mk_miner 1 ''a''])))
       \<inter> set (snd (snd (get_miners_to_query [] [mk_miner 1 ''a'']))) \<noteq> {}"
  by (simp add: get_miners_to_query_def)

text \<open>
  Claim C2, amended: for a snapshot with distinct uids, \<open>miners_to_query\<close> is the first
  \<open>min 8 n\<close> of the \<open>n\<close> candidates (the eligible miners without a record under their
  current key) in snapshot order; \<open>remaining_miners\<close> is not disjoint from it but contains
  it, together with every other candidate; with fewer than 8 candidates
  \<open>remaining_miners\<close> is the list of candidates.
\<close>

theorem partition_batch_in_remaining:
  assumes "distinct (map uid miners)"
    and "get_miners_to_query fl miners = (fl', remaining, batch)"
  shows "batch = take 8 (candidates fl miners)
       \<and> length batch = min 8 (length (candidates fl miners))
       \<and> set batch \<subseteq> set remaining
       \<and> set (candidates fl miners) \<subseteq> set remaining
       \<and> (length (candidates fl miners) < 8 \<longrightarrow> remaining = candidates fl miners)"
proof -
  have b: "batch = take 8 (candidates fl miners)"
    using miners_loop_batch[of 0 fl miners fl miners "[]"] assms(2)
    by (simp add: get_miners_to_query_def)
  have r: "remaining = fst (snd (get_miners_to_query fl miners))" using assms(2) by simp
  have c: "set (candidates fl miners) \<subseteq> set remaining"
    using candidates_in_remaining[OF assms(1)] r by blast
  have "set batch \<subseteq> set (candidates fl miners)" using b by (auto dest: in_set_takeD)
  then have s: "set batch \<subseteq> set remaining" using c by blast
  have n: "length (candidates fl miners) < 8 \<longrightarrow> remaining = candidates fl miners"
    using remaining_no_break[OF assms(1)] r by simp
  from b c s n show ?thesis by simp
qed

text \<open>
  The hypotheses of the amended C2 hold for two miners of which the first is covered.
\<close>

theorem partition_batch_in_remaining_witness:
  "distinct (map uid [mk_miner 1 ''a'', mk_miner 2 ''b''])
   \<and> get_miners_to_query [(1, mk_record ''a'' 1)] [mk_miner 1 ''a'', mk_miner 2 ''b'']
       = ([(1, mk_record ''a'' 1)], [mk_miner 2 ''b''], [mk_miner 2 ''b''])
   \<and> candidates [(1, mk_record ''a'' 1)] [mk_miner 1 ''a'', mk_miner 2 ''b''] = [mk_miner 2 ''b'']"
  using partition_batch_in_remaining[of "[mk_miner 1 ''a'', mk_miner 2 ''b'']" "[(1, mk_record ''a'' 1)]"
          "[(1, mk_record ''a'' 1)]" "[mk_miner 2 ''b'']" "[mk_miner 2 ''b'']"]
  by (simp add: get_miners_to_query_def mk_miner_def mk_record_def candidates_def covered_def)

text \<open>
  Claim C7 at nine eligible miners of which only the ninth has a record, under its
  current key: the loop stops after the eighth miner, the ninth is never looked at and
  stays in \<open>remaining_miners\<close>, though it is covered.
\<close>

theorem covered_miner_left_in_remaining:
  "covered [(9, mk_record ''k'' 1)] (mk_miner 9 ''k'')
   \<and> get_miners_to_query [(9, mk_record ''k'' 1)] nine_miners
       = ([(9, mk_record ''k'' 1)], nine_miners, take 8 nine_miners)
   \<and> mk_miner 9 ''k'' \<in> set nine_miners"
  by (simp add: get_miners_to_query_def nine_miners_def mk_miner_def mk_record_def covered_def)

text \<open>
  Claim C8: a miner of a snapshot with distinct uids whose key differs from the key of
  its record is a candidate and is in \<open>remaining_miners\<close>; when it is taken into
  \<open>miners_to_query\<close> its record is gone from the file; and the file the partition leaves
  never shows it as covered.
\<close>

theorem rotated_key_requeried:
  assumes "distinct (map uid miners)" and "m \<in> set miners"
    and "map_of fl (uid m) = Some r" and "ss58 r \<noteq> key m"
    and "get_miners_to_query fl miners = (fl', remaining, batch)"
  shows "m \<in> set (candidates fl miners) \<and> m \<in> set remaining
       \<and> (m \<in> set batch \<longrightarrow> map_of fl' (uid m) = None)
       \<and> \<not> covered fl' m"
proof -
  have nc: "\<not> covered fl m" using assms(3,4) by (auto simp: covered_def)
  then have c: "m \<in> set (candidates fl miners)" using assms(2) by (simp add: candidates_def)
  have r: "m \<in> set remaining" using candidates_in_remaining[OF assms(1) c] assms(5) by simp
  have f: "fl' = fst (miners_loop fl miners fl miners [] 0)"
    and b: "batch = snd (snd (miners_loop fl miners fl miners [] 0))"
    using assms(5) by (simp_all add: get_miners_to_query_def)
  have p: "m \<in> set batch \<longrightarrow> map_of fl' (uid m) = None"
    using miners_loop_batch_purged[of m fl miners fl miners "[]" 0] f b by simp
  have "map_of fl' (uid m) = None \<or> map_of fl' (uid m) = map_of fl (uid m)"
    unfolding f by (rule miners_loop_file_other)
  then have "\<not> covered fl' m" using assms(3,4) by (auto simp: covered_def)
  with c r p show ?thesis by simp
qed

text \<open>
  The hypotheses of C8 hold for one miner whose key changed from \<open>old\<close> to \<open>new\<close>.
\<close>

theorem rotated_key_requeried_witness:
  "distinct (map uid [mk_miner 1 ''new''])
   \<and> map_of [(1, mk_record ''old'' 1)] (uid (mk_miner 1 ''new'')) = Some (mk_record ''old'' 1)
   \<and> ss58 (mk_record ''old'' 1) \<noteq> key (mk_miner 1 ''new'')
   \<and> get_miners_to_query [(1, mk_record ''old'' 1)] [mk_miner 1 ''new'']
        = ([], [mk_miner 1 ''new''], [mk_miner 1 ''new''])
   \<and> mk_miner 1 ''new'' \<in> set (candidates [(1, mk_record ''old'' 1)] [mk_miner 1 ''new''])
   \<and> \<not> covered [] (mk_miner 1 ''new'')"
  using rotated_key_requeried[of "[mk_miner 1 ''new'']" "mk_miner 1 ''new''" "[(1, mk_record ''old'' 1)]"
          "mk_record ''old'' 1" "[]" "[mk_miner 1 ''new'']" "[mk_miner 1 ''new'']"]
  by (simp add: get_miners_to_query_def mk_miner_def mk_record_def candidates_def covered_def)

section \<open>Properties of the weights\<close>

lemma normalize_scores_unit_scale:
  "normalize_scores xs False = Inr (map (unit_scale xs) xs)" if "xs \<noteq> []"
proof (cases "Min (set xs) = Max (set xs)")
  case True
  then have "unit_scale xs = (\<lambda>_. 1)" by (simp add: fun_eq_iff unit_scale_def)
  then have "map (unit_scale xs) xs = replicate (length xs) 1"
    by (simp add: map_replicate_const)
  then show ?thesis using True that by (simp add: normalize_scores_def)
next
  case False
  then have "unit_scale xs = (\<lambda>x. (x - Min (set xs)) / (Max (set xs) - Min (set xs)))"
    by (simp add: fun_eq_iff unit_scale_def)
  then show ?thesis using False that by (simp add: normalize_scores_def Let_def)
qed

lemma zip_fst_map: "zip (map fst d) (map h d) = map (\<lambda>p. (fst p, h p)) d"
  by (induction d) auto

lemma zip_fst_map_snd: "zip (map fst d) (map f (map snd d)) = map (\<lambda>(k, v). (k, f v)) d"
  by (induction d) auto

lemma weighted_scores_eq:
  assumes "d \<noteq> []"
  shows "weighted_scores sq su d =
     (if sum_list (map (\<lambda>(k, v). squashed sq d v) d) = 0 then Inl ZeroDivisionError
      else Inr (drop_self su (filter (\<lambda>(k, v). v \<noteq> 0) (map (\<lambda>(k, v). (k, final_weight sq d v)) d))))"
proof -
  let ?S = "sum_list (map (\<lambda>(k, v). squashed sq d v) d)"
  have n1: "normalize_scores (map snd d) False = Inr (map (unit_scale (map snd d)) (map snd d))"
    using assms by (simp add: normalize_scores_unit_scale)
  have sd: "sigmoid_rewards sq (zip (map fst d) (map (unit_scale (map snd d)) (map snd d)))
            = map (\<lambda>(k, v). (k, squashed sq d v)) d"
    by (simp only: zip_fst_map_snd) (simp add: sigmoid_rewards_def squashed_def split_def)
  have s: "sum_list (map snd (map (\<lambda>(k, v). (k, squashed sq d v)) d)) = ?S"
    by (simp add: split_def comp_def)
  have w: "map (\<lambda>(k, v). (k, v * 1000 / ?S)) (map (\<lambda>(k, v). (k, squashed sq d v)) d)
           = map (\<lambda>(k, v). (k, rescaled sq d v)) d"
    by (simp add: rescaled_def split_def)
  have vals: "map snd (map (\<lambda>(k, v). (k, rescaled sq d v)) d) = map (\<lambda>(k, v). rescaled sq d v) d"
    by (simp add: split_def comp_def)
  have keys: "map fst (map (\<lambda>(k, v). (k, rescaled sq d v)) d) = map fst d"
    by (simp add: split_def comp_def)
  have ne: "map (\<lambda>(k, v). rescaled sq d v) d \<noteq> []" using assms by simp
  have n2: "normalize_scores (map (\<lambda>(k, v). rescaled sq d v) d) False
            = Inr (map (unit_scale (map (\<lambda>(k, v). rescaled sq d v) d)) (map (\<lambda>(k, v). rescaled sq d v) d))"
    by (rule normalize_scores_unit_scale[OF ne])
  have z: "zip (map fst d) (map (unit_scale (map (\<lambda>(k, v). rescaled sq d v) d)) (map (\<lambda>(k, v). rescaled sq d v) d))
           = map (\<lambda>(k, v). (k, final_weight sq d v)) d"
    by (simp add: zip_fst_map final_weight_def split_def comp_def)
  have ds: "\<And>ws. (case su of None \<Rightarrow> ws
                  | Some u \<Rightarrow> if map_of ws u \<noteq> None then AList.delete u ws else ws) = drop_self su ws"
    by (auto simp: drop_self_def delete_absent split: option.splits)
  show ?thesis
    unfolding weighted_scores_def n1
    by (simp add: Let_def sd s w vals keys n2 z ds del: map_map)
qed

lemma weighted_scores_Nil: "weighted_scores sq su [] = Inl ValueError"
  by (simp add: weighted_scores_def normalize_scores_def)

lemma str_keys_no_int_key:
  "IntKey u \<notin> fst ` set (filter P (map (\<lambda>(k, v). (k, f v)) (map (\<lambda>(u, d). (StrKey u, g d)) fl)))"
  by (induction fl) auto

text \<open>
  Claim C5 at the only call of \<^verbatim>\<open>set_weights\<close>: the dictionary built from the weights
  file has the file's string keys, \<^verbatim>\<open>self.uid\<close> is an integer, so the test
  \<^verbatim>\<open>self.uid in weighted_scores\<close> never holds and the weights are those computed with
  no \<^verbatim>\<open>self.uid\<close> at all. A registered validator whose own module is eligible and has
  the best score votes for its own uid. With a key of the dictionary's type the same
  computation removes it.
\<close>

theorem self_uid_never_removed:
  "weighted_scores sq (map_option IntKey su) (map (\<lambda>(u, d). (StrKey u, score d)) fl)
     = weighted_scores sq None (map (\<lambda>(u, d). (StrKey u, score d)) fl)
   \<and> validate_step self_scored_env self_scored_validator =
       (Inr (), self_scored_validator\<lparr>self_uid := Some 0, wfile := [],
                  events := [Vote 0 [StrKey 0] [1]]\<rparr>)
   \<and> weighted_scores (squash self_scored_env) (Some (StrKey 0)) [(StrKey 0, 2), (StrKey 1, 1)]
       = Inr []"
proof (intro conjI)
  let ?d = "map (\<lambda>(u, d). (StrKey u, score d)) fl"
  show "weighted_scores sq (map_option IntKey su) ?d = weighted_scores sq None ?d"
  proof (cases "fl = []")
    case True
    then show ?thesis by (simp add: weighted_scores_Nil)
  next
    case False
    then have ne: "?d \<noteq> []" by simp
    show ?thesis
    proof (cases su)
      case None
      then show ?thesis by simp
    next
      case (Some u)
      have "IntKey u \<notin> fst ` set (filter (\<lambda>(k, v). v \<noteq> 0)
              (map (\<lambda>(k, v). (k, final_weight sq ?d v)) ?d))"
        by (rule str_keys_no_int_key)
      then have "drop_self (Some (IntKey u)) (filter (\<lambda>(k, v). v \<noteq> 0)
              (map (\<lambda>(k, v). (k, final_weight sq ?d v)) ?d))
            = drop_self None (filter (\<lambda>(k, v). v \<noteq> 0)
              (map (\<lambda>(k, v). (k, final_weight sq ?d v)) ?d))"
        by (simp add: drop_self_def)
      then show ?thesis
        unfolding Some weighted_scores_eq[OF ne] by simp
    qed
  qed
next
  show "validate_step self_scored_env self_scored_validator =
       (Inr (), self_scored_validator\<lparr>self_uid := Some 0, wfile := [],
                  events := [Vote 0 [StrKey 0] [1]]\<rparr>)"
    by (simp add: validate_step_def self_scored_env_def self_scored_validator_def example_env_def
          example_validator_def get_miner_ip_port_def get_miners_to_query_def mk_miner_def
          mk_record_def finalize_cycle_def set_weights_def weighted_scores_def
          normalize_scores_def sigmoid_rewards_def Let_def)
next
  show "weighted_scores (squash self_scored_env) (Some (StrKey 0)) [(StrKey 0, 2), (StrKey 1, 1)]
       = Inr []"
    by (simp add: self_scored_env_def example_env_def weighted_scores_def normalize_scores_def
          sigmoid_rewards_def Let_def)
qed

section \<open>Properties of the dispatch\<close>

lemma split_ip_port_examples:
  "split_ip_port None = (None, None)"
  "split_ip_port (Some []) = (None, None)"
  "split_ip_port (Some ''10.0.0.1'') = (None, None)"
  "split_ip_port (Some ''10.0.0.1:8080'') = (Some ''10.0.0.1'', Some ''8080'')"
  by (simp_all add: split_ip_port_def)

text \<open>
  Claim C3 at a miner without a usable address (\<^verbatim>\<open>None\<close>, the empty string, or no
  port): \<^verbatim>\<open>split_ip_port\<close> gives \<^verbatim>\<open>(None, None)\<close>, the guard against the string
  \<^verbatim>\<open>"None"\<close> does not fire, and \<^verbatim>\<open>int(None)\<close> raises \<^verbatim>\<open>TypeError\<close> outside the
  \<^verbatim>\<open>try\<close>. A batch of a reachable miner and such a miner gives no list of responses
  but the exception, which also ends the step and the loop.
\<close>

theorem bad_address_aborts_dispatch:
  "get_miner_prediction e prompt (m\<lparr>address := None\<rparr>) = Inl TypeError
   \<and> get_miner_prediction e prompt (m\<lparr>address := Some []\<rparr>) = Inl TypeError
   \<and> get_miner_prediction e prompt (m\<lparr>address := Some ''10.0.0.1''\<rparr>) = Inl TypeError
   \<and> executor_map example_env prompt [mk_miner 1 ''a''] = Inr [Some ''bonjour'']
   \<and> executor_map example_env prompt [mk_miner 1 ''a'', (mk_miner 2 ''b'')\<lparr>address := Some []\<rparr>]
       = Inl TypeError
   \<and> fst (validate_step
             (example_env\<lparr>modules := [mk_miner 1 ''a'', (mk_miner 2 ''b'')\<lparr>address := Some []\<rparr>]\<rparr>)
             example_validator) = Inl TypeError
   \<and> fst (validation_loop
             [example_env\<lparr>modules := [mk_miner 1 ''a'', (mk_miner 2 ''b'')\<lparr>address := Some []\<rparr>]\<rparr>,
              example_env]
             example_validator) = Inl TypeError"
  by (simp add: get_miner_prediction_def split_ip_port_examples example_env_def mk_miner_def
        split_ip_port_def validate_step_def example_validator_def get_miner_ip_port_def
        get_miners_to_query_def)

section \<open>Properties of the step and the loop\<close>

lemma miners_loop_all_covered:
  "\<forall>m \<in> set ms. covered sc m \<Longrightarrow>
   miners_loop sc ms fl rmn tq c = (fl, filter (\<lambda>rm. \<forall>m \<in> set ms. uid m \<noteq> uid rm) rmn, tq)"
proof (induction ms arbitrary: rmn)
  case Nil
  then show ?case by simp
next
  case (Cons m ms)
  then have "covered sc m" "\<forall>m \<in> set ms. covered sc m" by simp_all
  then show ?case using Cons.IH
    by (auto simp add: miners_loop_covered simp del: miners_loop.simps intro!: filter_cong)
qed

lemma all_covered_partition:
  assumes "\<forall>m \<in> set ms. covered fl m"
  shows "get_miners_to_query fl ms = (fl, [], [])"
proof -
  have "filter (\<lambda>rm. \<forall>m \<in> set ms. uid m \<noteq> uid rm) ms = []"
    by (simp add: filter_empty_conv) blast
  then show ?thesis
    using miners_loop_all_covered[OF assms, of fl ms "[]" 0] by (simp add: get_miners_to_query_def)
qed

lemma validate_step_unregistered:
  "val_ss58 v \<notin> snd ` set (modules_keys e) \<Longrightarrow> validate_step e v = (Inr (), v)"
  by (simp add: validate_step_def)

lemma validate_step_finalizes:
  assumes "val_ss58 v \<in> snd ` set (modules_keys e)"
    and "\<forall>m \<in> set (get_miner_ip_port (modules e)). covered (wfile v) m"
  shows "validate_step e v =
     (case get_scores e (fst (miner_prompt e)) (snd (snd (miner_prompt e))) [] of
        Inl err \<Rightarrow>
          (Inl err, v\<lparr>self_uid := fold (\<lambda>(u, s) acc. if s = val_ss58 v then Some u else acc)
                                      (modules_keys e) (self_uid v)\<rparr>)
      | Inr scores \<Rightarrow>
          finalize_cycle e
            (v\<lparr>self_uid := fold (\<lambda>(u, s) acc. if s = val_ss58 v then Some u else acc)
                               (modules_keys e) (self_uid v)\<rparr>))"
  using assms all_covered_partition[OF assms(2)]
  by (simp add: validate_step_def split_def split: sum.splits)

lemma validate_step_no_finalize_events:
  assumes "val_ss58 v \<in> snd ` set (modules_keys e)"
    and "get_miners_to_query (wfile v) (get_miner_ip_port (modules e)) = (fl', remaining, batch)"
    and "remaining \<noteq> []"
  shows "events (snd (validate_step e v)) = events v"
  using assms
  by (auto simp add: validate_step_def split_def Let_def split: sum.splits)

lemma validate_step_no_finalize_file:
  assumes "val_ss58 v \<in> snd ` set (modules_keys e)"
    and "get_miners_to_query (wfile v) (get_miner_ip_port (modules e)) = (fl', remaining, batch)"
    and "remaining \<noteq> []"
    and "validate_step e v = (Inr (), v')"
  shows "\<exists>scores dtw.
           data_to_write (fold (\<lambda>(u, s) d. AList.update u s d) (zip (map uid batch) scores) [])
             batch [] = Inr dtw
           \<and> wfile v' = fold (\<lambda>(k, d) cw. AList.update k d cw) dtw fl'"
proof -
  obtain answers where "executor_map e (miner_prompt e) batch = Inr answers"
    using assms by (auto simp add: validate_step_def split_def Let_def split: sum.splits)
  moreover obtain scores where
    "get_scores e (fst (miner_prompt e)) (snd (snd (miner_prompt e))) answers = Inr scores"
    using assms calculation by (auto simp add: validate_step_def split_def Let_def split: sum.splits)
  moreover obtain dtw where
    d: "data_to_write (fold (\<lambda>(u, s) d. AList.update u s d) (zip (map uid batch) scores) [])
         batch [] = Inr dtw"
    using assms calculation by (auto simp add: validate_step_def split_def Let_def split: sum.splits)
  ultimately have "wfile v' = fold (\<lambda>(k, d) cw. AList.update k d cw) dtw fl'"
    using assms by (auto simp add: validate_step_def split_def Let_def split: sum.splits)
  with d show ?thesis by blast
qed

lemma data_to_write_other:
  "data_to_write sd items acc = Inr dtw \<Longrightarrow> u \<notin> uid ` set items \<Longrightarrow>
   map_of dtw u = map_of acc u"
proof (induction items arbitrary: acc)
  case Nil
  then show ?case by simp
next
  case (Cons item items)
  then show ?case
    by (auto simp: AList.update_conv' split: option.splits)
qed

lemma data_to_write_member:
  "data_to_write sd items acc = Inr dtw \<Longrightarrow> m \<in> set items \<Longrightarrow> distinct (map uid items) \<Longrightarrow>
   \<exists>s. map_of sd (uid m) = Some s \<and> map_of dtw (uid m) = Some \<lparr>ss58 = key m, score = s\<rparr>"
proof (induction items arbitrary: acc)
  case Nil
  then show ?case by simp
next
  case (Cons item items)
  obtain s where s: "map_of sd (uid item) = Some s"
    and rest: "data_to_write sd items (AList.update (uid item) \<lparr>ss58 = key item, score = s\<rparr> acc) = Inr dtw"
    using Cons.prems(1) by (auto split: option.splits)
  show ?case
  proof (cases "m = item")
    case True
    have "uid item \<notin> uid ` set items" using Cons.prems(3) by auto
    from data_to_write_other[OF rest this] show ?thesis
      using True s by (simp add: AList.update_conv')
  next
    case False
    then have "m \<in> set items" "distinct (map uid items)" using Cons.prems by simp_all
    from Cons.IH[OF rest this] show ?thesis .
  qed
qed

lemma data_to_write_distinct:
  "data_to_write sd items acc = Inr dtw \<Longrightarrow> distinct (map fst acc) \<Longrightarrow> distinct (map fst dtw)"
proof (induction items arbitrary: acc)
  case Nil
  then show ?case by simp
next
  case (Cons item items)
  then show ?case
    by (auto simp: AList.distinct_update split: option.splits)
qed

lemma fold_update_map_of:
  "distinct (map fst xs) \<Longrightarrow>
   map_of (fold (\<lambda>(k, d) cw. AList.update k d cw) xs fl) k =
     (case map_of xs k of Some d \<Rightarrow> Some d | None \<Rightarrow> map_of fl k)"
proof (induction xs arbitrary: fl)
  case Nil
  then show ?case by simp
next
  case (Cons x xs)
  obtain k' d' where x: "x = (k', d')" by (cases x)
  have d: "distinct (map fst xs)" and nk: "k' \<notin> fst ` set xs" using Cons.prems x by auto
  have "map_of xs k' = None" using nk by (simp add: map_of_eq_None_iff)
  then show ?case using Cons.IH[OF d, of "AList.update k' d' fl"] x
    by (auto simp: AList.update_conv' split: option.splits)
qed

lemma batch_distinct:
  assumes "distinct (map uid miners)"
  shows "distinct (map uid (take n (candidates fl miners)))"
proof -
  have "distinct (map uid (candidates fl miners))"
    unfolding candidates_def using assms by (rule distinct_map_filter)
  then show ?thesis by (simp add: take_map[symmetric] distinct_take del: take_map)
qed

lemma covered_not_in_batch:
  assumes "covered fl m"
  shows "m \<notin> set (snd (snd (get_miners_to_query fl ms)))"
proof -
  have "snd (snd (get_miners_to_query fl ms)) = take 8 (candidates fl ms)"
    using miners_loop_batch[of 0 fl ms fl ms "[]"] by (simp add: get_miners_to_query_def)
  moreover have "m \<notin> set (candidates fl ms)" using assms by (simp add: candidates_def)
  ultimately show ?thesis by (auto dest: in_set_takeD)
qed

lemma partition_keeps_record:
  assumes "\<forall>m' \<in> set ms. uid m' = u \<longrightarrow> covered fl m'"
  shows "map_of (fst (get_miners_to_query fl ms)) u = map_of fl u"
proof -
  have "\<forall>m \<in> set ms. uid m = u \<longrightarrow> covered fl m \<or> map_of fl u = None" using assms by blast
  then show ?thesis unfolding get_miners_to_query_def by (rule miners_loop_file_kept)
qed

lemma batch_subset_candidates:
  "set (snd (snd (get_miners_to_query fl ms))) \<subseteq> set (candidates fl ms)"
proof -
  have "snd (snd (get_miners_to_query fl ms)) = take 8 (candidates fl ms)"
    using miners_loop_batch[of 0 fl ms fl ms "[]"] by (simp add: get_miners_to_query_def)
  then show ?thesis by (simp add: set_take_subset)
qed

lemma validate_step_no_finalize_wfile:
  assumes reg: "val_ss58 v \<in> snd ` set (modules_keys e)"
    and part: "get_miners_to_query (wfile v) (get_miner_ip_port (modules e)) = (fl', remaining, batch)"
    and ne: "remaining \<noteq> []"
  shows "wfile (snd (validate_step e v)) = fl'
       \<or> (\<exists>scores dtw.
             data_to_write (fold (\<lambda>(u, s) d. AList.update u s d) (zip (map uid batch) scores) [])
               batch [] = Inr dtw
             \<and> wfile (snd (validate_step e v)) = fold (\<lambda>(k, d) cw. AList.update k d cw) dtw fl')"
proof (cases "fst (validate_step e v)")
  case (Inl err)
  then have "wfile (snd (validate_step e v)) = fl'"
    using assms by (auto simp add: validate_step_def split_def Let_def split: sum.splits)
  then show ?thesis by simp
next
  case (Inr x)
  then have "validate_step e v = (Inr (), snd (validate_step e v))"
    by (cases "validate_step e v") simp
  from validate_step_no_finalize_file[OF reg part ne this] show ?thesis by blast
qed

lemma non_final_step_keeps_record:
  assumes part: "get_miners_to_query (wfile v) (get_miner_ip_port (modules e)) = (fl', remaining, batch)"
    and ne: "remaining \<noteq> []"
    and cov: "\<forall>m' \<in> set (get_miner_ip_port (modules e)). uid m' = u \<longrightarrow> covered (wfile v) m'"
  shows "map_of (wfile (snd (validate_step e v))) u = map_of (wfile v) u"
proof (cases "val_ss58 v \<in> snd ` set (modules_keys e)")
  case False
  then show ?thesis by (simp add: validate_step_unregistered)
next
  case reg: True
  let ?miners = "get_miner_ip_port (modules e)"
  have fl': "fl' = fst (get_miners_to_query (wfile v) ?miners)"
    and b: "batch = snd (snd (get_miners_to_query (wfile v) ?miners))" using part by simp_all
  have k: "map_of fl' u = map_of (wfile v) u"
    unfolding fl' using cov by (rule partition_keeps_record)
  have nb: "u \<notin> uid ` set batch"
  proof
    assume "u \<in> uid ` set batch"
    then obtain m' where m': "m' \<in> set batch" "u = uid m'" by (rule imageE)
    then have "m' \<in> set (candidates (wfile v) ?miners)"
      using batch_subset_candidates[of "wfile v" ?miners] b by blast
    then have "m' \<in> set ?miners" "\<not> covered (wfile v) m'" by (simp_all add: candidates_def)
    then show False using cov m'(2) by blast
  qed
  from validate_step_no_finalize_wfile[OF reg part ne] show ?thesis
  proof
    assume "wfile (snd (validate_step e v)) = fl'"
    then show ?thesis using k by simp
  next
    assume "\<exists>scores dtw.
             data_to_write (fold (\<lambda>(u, s) d. AList.update u s d) (zip (map uid batch) scores) [])
               batch [] = Inr dtw
             \<and> wfile (snd (validate_step e v)) = fold (\<lambda>(k, d) cw. AList.update k d cw) dtw fl'"
    then obtain scores dtw where
      d: "data_to_write (fold (\<lambda>(u, s) d. AList.update u s d) (zip (map uid batch) scores) [])
               batch [] = Inr dtw"
      and f: "wfile (snd (validate_step e v)) = fold (\<lambda>(k, d) cw. AList.update k d cw) dtw fl'"
      by blast
    have "map_of dtw u = None" using data_to_write_other[OF d nb] by simp
    moreover have "distinct (map fst dtw)" using data_to_write_distinct[OF d] by simp
    ultimately show ?thesis unfolding f using k by (simp add: fold_update_map_of)
  qed
qed

lemma non_final_step_keeps_covered:
  assumes c: "covered (wfile w) m"
    and same: "\<forall>m' \<in> set (get_miner_ip_port (modules e2)). uid m' = uid m \<longrightarrow> key m' = key m"
    and ne: "fst (snd (get_miners_to_query (wfile w) (get_miner_ip_port (modules e2)))) \<noteq> []"
  shows "covered (wfile (snd (validate_step e2 w))) m"
proof -
  obtain fl' remaining batch where
    part: "get_miners_to_query (wfile w) (get_miner_ip_port (modules e2)) = (fl', remaining, batch)"
    by (cases "get_miners_to_query (wfile w) (get_miner_ip_port (modules e2))") auto
  have r: "remaining \<noteq> []" using ne part by simp
  have "\<forall>m' \<in> set (get_miner_ip_port (modules e2)). uid m' = uid m \<longrightarrow> covered (wfile w) m'"
    using c same by (auto simp: covered_def split: option.splits)
  from non_final_step_keeps_record[OF part r this] show ?thesis
    using c by (simp add: covered_def)
qed

text \<open>
  Claim C10: when a step of a registered validator over a snapshot with distinct uids
  returns, every miner of the queried batch, whatever it answered, has a record under its
  current key in the file, and the step has kept every record of a uid that the snapshot
  does not show under another key. The miner counts as covered; a covered miner is in no
  batch; and it stays covered through every later step that leaves \<^verbatim>\<open>remaining_miners\<close>
  non-empty, as long as the directory shows its uid under the same key.
\<close>

theorem batch_members_stay_covered:
  assumes reg: "val_ss58 v \<in> snd ` set (modules_keys e)"
    and dist: "distinct (map uid (get_miner_ip_port (modules e)))"
    and part: "get_miners_to_query (wfile v) (get_miner_ip_port (modules e)) = (fl', remaining, batch)"
    and step: "validate_step e v = (Inr (), v')"
    and m: "m \<in> set batch"
  shows "(\<exists>s. map_of (wfile v') (uid m) = Some \<lparr>ss58 = key m, score = s\<rparr>)
       \<and> (\<forall>u. (\<forall>m' \<in> set (get_miner_ip_port (modules e)). uid m' = u \<longrightarrow> covered (wfile v) m')
              \<longrightarrow> map_of (wfile v') u = map_of (wfile v) u)
       \<and> covered (wfile v') m
       \<and> (\<forall>fl2 miners2. covered fl2 m \<longrightarrow> m \<notin> set (snd (snd (get_miners_to_query fl2 miners2))))
       \<and> (\<forall>e2 w. covered (wfile w) m
              \<and> (\<forall>m' \<in> set (get_miner_ip_port (modules e2)). uid m' = uid m \<longrightarrow> key m' = key m)
              \<and> fst (snd (get_miners_to_query (wfile w) (get_miner_ip_port (modules e2)))) \<noteq> []
              \<longrightarrow> covered (wfile (snd (validate_step e2 w))) m)"
proof -
  let ?miners = "get_miner_ip_port (modules e)"
  have b: "batch = take 8 (candidates (wfile v) ?miners)"
    using miners_loop_batch[of 0 "wfile v" ?miners "wfile v" ?miners "[]"] part
    by (simp add: get_miners_to_query_def)
  have db: "distinct (map uid batch)" unfolding b using dist by (rule batch_distinct)
  have "m \<in> set (candidates (wfile v) ?miners)" using m b by (auto dest: in_set_takeD)
  then have "m \<in> set remaining" using candidates_in_remaining[OF dist] part by fastforce
  then have ne: "remaining \<noteq> []" by auto
  obtain scores dtw where
    d: "data_to_write (fold (\<lambda>(u, s) d. AList.update u s d) (zip (map uid batch) scores) [])
          batch [] = Inr dtw"
    and f: "wfile v' = fold (\<lambda>(k, d) cw. AList.update k d cw) dtw fl'"
    using validate_step_no_finalize_file[OF reg part ne step] by blast
  obtain s where s: "map_of dtw (uid m) = Some \<lparr>ss58 = key m, score = s\<rparr>"
    using data_to_write_member[OF d m db] by blast
  have "distinct (map fst dtw)" using data_to_write_distinct[OF d] by simp
  then have r: "map_of (wfile v') (uid m) = Some \<lparr>ss58 = key m, score = s\<rparr>"
    unfolding f using s by (simp add: fold_update_map_of)
  then have c: "covered (wfile v') m" by (simp add: covered_def)
  have v': "v' = snd (validate_step e v)" using step by simp
  have 2: "\<forall>u. (\<forall>m' \<in> set ?miners. uid m' = u \<longrightarrow> covered (wfile v) m')
              \<longrightarrow> map_of (wfile v') u = map_of (wfile v) u"
    unfolding v' using non_final_step_keeps_record[OF part ne] by blast
  have 4: "\<forall>fl2 miners2. covered fl2 m \<longrightarrow> m \<notin> set (snd (snd (get_miners_to_query fl2 miners2)))"
    using covered_not_in_batch by blast
  have 5: "\<forall>e2 w. covered (wfile w) m
              \<and> (\<forall>m' \<in> set (get_miner_ip_port (modules e2)). uid m' = uid m \<longrightarrow> key m' = key m)
              \<and> fst (snd (get_miners_to_query (wfile w) (get_miner_ip_port (modules e2)))) \<noteq> []
              \<longrightarrow> covered (wfile (snd (validate_step e2 w))) m"
    using non_final_step_keeps_covered by blast
  have 1: "\<exists>s. map_of (wfile v') (uid m) = Some \<lparr>ss58 = key m, score = s\<rparr>" using r by blast
  from 1 2 c 4 5 show ?thesis by (intro conjI)
qed

lemma unreachable_dispatch:
  "executor_map unreachable_env (miner_prompt unreachable_env) [mk_miner 1 ''a''] = Inr [None]"
  by (simp add: unreachable_env_def example_env_def mk_miner_def get_miner_prediction_def
        split_ip_port_def)

lemma unreachable_step:
  "validate_step unreachable_env example_validator =
     (Inr (), example_validator\<lparr>self_uid := Some 0, wfile := [(1, \<lparr>ss58 = ''a'', score = 0\<rparr>)]\<rparr>)"
  by (simp add: validate_step_def unreachable_env_def example_env_def example_validator_def
        get_miner_ip_port_def get_miners_to_query_def mk_miner_def get_miner_prediction_def
        split_ip_port_def)

lemma unreachable_partition:
  "get_miners_to_query (wfile example_validator) (get_miner_ip_port (modules unreachable_env))
     = ([], [mk_miner 1 ''a''], [mk_miner 1 ''a''])"
  by (simp add: unreachable_env_def example_env_def example_validator_def get_miner_ip_port_def
        get_miners_to_query_def mk_miner_def)

lemma second_step_remaining:
  "fst (snd (get_miners_to_query [(1, \<lparr>ss58 = ''a'', score = 0\<rparr>)]
        (get_miner_ip_port (modules (unreachable_env\<lparr>modules := [mk_miner 1 ''a'', mk_miner 2 ''b'']\<rparr>)))))
     = [mk_miner 2 ''b'']"
  by (simp add: unreachable_env_def example_env_def get_miner_ip_port_def
        get_miners_to_query_def mk_miner_def)

text \<open>
  The hypotheses of C10 hold for the first step of the example validator with a miner
  whose call raises: its answer is \<^verbatim>\<open>None\<close>, its record is written with the score the
  scorer gives, it is in no later batch, and it is still covered after a second step that
  queries a new miner.
\<close>

theorem batch_members_stay_covered_witness:
  "val_ss58 example_validator \<in> snd ` set (modules_keys unreachable_env)
   \<and> distinct (map uid (get_miner_ip_port (modules unreachable_env)))
   \<and> mk_miner 1 ''a'' \<in> set [mk_miner 1 ''a'']
   \<and> executor_map unreachable_env (miner_prompt unreachable_env) [mk_miner 1 ''a''] = Inr [None]
   \<and> covered [(1, \<lparr>ss58 = ''a'', score = 0\<rparr>)] (mk_miner 1 ''a'')
   \<and> mk_miner 1 ''a'' \<notin> set (snd (snd (get_miners_to_query [(1, \<lparr>ss58 = ''a'', score = 0\<rparr>)]
                                              [mk_miner 1 ''a'', mk_miner 2 ''b''])))
   \<and> covered (wfile (snd (validate_step
          (unreachable_env\<lparr>modules := [mk_miner 1 ''a'', mk_miner 2 ''b'']\<rparr>)
          (example_validator\<lparr>self_uid := Some 0, wfile := [(1, \<lparr>ss58 = ''a'', score = 0\<rparr>)]\<rparr>))))
        (mk_miner 1 ''a'')"
proof -
  let ?e2 = "unreachable_env\<lparr>modules := [mk_miner 1 ''a'', mk_miner 2 ''b'']\<rparr>"
  let ?w = "example_validator\<lparr>self_uid := Some 0, wfile := [(1, \<lparr>ss58 = ''a'', score = 0\<rparr>)]\<rparr>"
  have reg: "val_ss58 example_validator \<in> snd ` set (modules_keys unreachable_env)"
    by (simp add: unreachable_env_def example_env_def example_validator_def)
  have dist: "distinct (map uid (get_miner_ip_port (modules unreachable_env)))"
    by (simp add: unreachable_env_def example_env_def get_miner_ip_port_def mk_miner_def)
  have m: "mk_miner 1 ''a'' \<in> set [mk_miner 1 ''a'']" by simp
  note t = batch_members_stay_covered[OF reg dist unreachable_partition unreachable_step m]
  have c: "covered [(1, \<lparr>ss58 = ''a'', score = 0\<rparr>)] (mk_miner 1 ''a'')"
    using t by simp
  have "\<forall>fl2 miners2. covered fl2 (mk_miner 1 ''a'') \<longrightarrow>
          mk_miner 1 ''a'' \<notin> set (snd (snd (get_miners_to_query fl2 miners2)))"
    using t by (elim conjE)
  then have n: "mk_miner 1 ''a'' \<notin> set (snd (snd (get_miners_to_query [(1, \<lparr>ss58 = ''a'', score = 0\<rparr>)]
                                              [mk_miner 1 ''a'', mk_miner 2 ''b''])))"
    using c by blast
  have inv: "\<forall>e2 w. covered (wfile w) (mk_miner 1 ''a'')
              \<and> (\<forall>m' \<in> set (get_miner_ip_port (modules e2)).
                    uid m' = uid (mk_miner 1 ''a'') \<longrightarrow> key m' = key (mk_miner 1 ''a''))
              \<and> fst (snd (get_miners_to_query (wfile w) (get_miner_ip_port (modules e2)))) \<noteq> []
              \<longrightarrow> covered (wfile (snd (validate_step e2 w))) (mk_miner 1 ''a'')"
    using t by (elim conjE)
  have h1: "covered (wfile ?w) (mk_miner 1 ''a'')" using c by simp
  have h2: "\<forall>m' \<in> set (get_miner_ip_port (modules ?e2)).
              uid m' = uid (mk_miner 1 ''a'') \<longrightarrow> key m' = key (mk_miner 1 ''a'')"
    by (simp add: unreachable_env_def example_env_def get_miner_ip_port_def mk_miner_def)
  have h3: "fst (snd (get_miners_to_query (wfile ?w) (get_miner_ip_port (modules ?e2)))) \<noteq> []"
    using second_step_remaining by simp
  have s: "covered (wfile (snd (validate_step ?e2 ?w))) (mk_miner 1 ''a'')"
    using inv h1 h2 h3 by blast
  from reg dist m unreachable_dispatch c n s show ?thesis by (intro conjI)
qed

lemma finalize_cycle_resets:
  "fst (finalize_cycle e w) = Inr () \<Longrightarrow> wfile (snd (finalize_cycle e w)) = []"
  by (auto simp: finalize_cycle_def split: prod.splits sum.splits)

text \<open>
  Claim C1, as stated, fails: with one eligible miner and an empty file, the first step
  scores the last unscored miner and leaves it covered, but \<^verbatim>\<open>remaining_miners\<close>, taken
  before the dispatch, still holds it, so the step casts no vote and keeps the file; the
  vote and the reset come with the second step.
\<close>

theorem last_batch_step_does_not_finalize:
  "validate_step example_env example_validator =
     (Inr (), example_validator\<lparr>self_uid := Some 0, wfile := [(1, \<lparr>ss58 = ''a'', score = 1\<rparr>)]\<rparr>)
   \<and> covered [(1, \<lparr>ss58 = ''a'', score = 1\<rparr>)] (mk_miner 1 ''a'')
   \<and> events (snd (validate_step example_env example_validator)) = []
   \<and> validate_step example_env
        (example_validator\<lparr>self_uid := Some 0, wfile := [(1, \<lparr>ss58 = ''a'', score = 1\<rparr>)]\<rparr>) =
     (Inr (), example_validator\<lparr>self_uid := Some 0, wfile := [],
                events := [Vote 0 [StrKey 1] [1]]\<rparr>)"
  by (simp add: validate_step_def example_env_def example_validator_def get_miner_ip_port_def
        get_miners_to_query_def mk_miner_def get_miner_prediction_def split_ip_port_def
        covered_def finalize_cycle_def set_weights_def weighted_scores_def normalize_scores_def
        sigmoid_rewards_def)

text \<open>
  Claim C1, amended: for a registered validator and a snapshot with distinct uids,
  \<^verbatim>\<open>remaining_miners\<close> is empty exactly when every eligible miner of the snapshot is
  covered by the file as the step finds it; a non-empty batch makes it non-empty; a step
  with non-empty \<^verbatim>\<open>remaining_miners\<close> casts no vote and keeps every record of a uid
  that the snapshot does not show under another key; a step with empty
  \<^verbatim>\<open>remaining_miners\<close> ends with the exception of the scorer when the scorer raises on
  the empty batch, and is otherwise the final block, entered once; and the final block
  leaves the file empty whenever it returns.
\<close>

theorem finalization_when_all_covered:
  assumes reg: "val_ss58 v \<in> snd ` set (modules_keys e)"
    and dist: "distinct (map uid (get_miner_ip_port (modules e)))"
    and part: "get_miners_to_query (wfile v) (get_miner_ip_port (modules e)) = (fl', remaining, batch)"
  shows "(remaining = [] \<longleftrightarrow> (\<forall>m \<in> set (get_miner_ip_port (modules e)). covered (wfile v) m))
       \<and> (batch \<noteq> [] \<longrightarrow> remaining \<noteq> [])
       \<and> (remaining \<noteq> [] \<longrightarrow> events (snd (validate_step e v)) = events v)
       \<and> (remaining \<noteq> [] \<longrightarrow>
            (\<forall>u. (\<forall>m' \<in> set (get_miner_ip_port (modules e)). uid m' = u \<longrightarrow> covered (wfile v) m')
                 \<longrightarrow> map_of (wfile (snd (validate_step e v))) u = map_of (wfile v) u))
       \<and> (remaining = [] \<longrightarrow>
            validate_step e v =
              (case get_scores e (fst (miner_prompt e)) (snd (snd (miner_prompt e))) [] of
                 Inl err \<Rightarrow>
                   (Inl err, v\<lparr>self_uid := fold (\<lambda>(u, s) acc. if s = val_ss58 v then Some u else acc)
                                               (modules_keys e) (self_uid v)\<rparr>)
               | Inr scores \<Rightarrow>
                   finalize_cycle e
                     (v\<lparr>self_uid := fold (\<lambda>(u, s) acc. if s = val_ss58 v then Some u else acc)
                                        (modules_keys e) (self_uid v)\<rparr>)))
       \<and> (\<forall>w. fst (finalize_cycle e w) = Inr () \<longrightarrow> wfile (snd (finalize_cycle e w)) = [])"
proof -
  let ?miners = "get_miner_ip_port (modules e)"
  have r: "remaining = fst (snd (get_miners_to_query (wfile v) ?miners))"
    and b: "batch = snd (snd (get_miners_to_query (wfile v) ?miners))" using part by simp_all
  have all_imp: "remaining = []" if "\<forall>m \<in> set ?miners. covered (wfile v) m"
    using all_covered_partition[OF that] r by simp
  have imp_all: "\<forall>m \<in> set ?miners. covered (wfile v) m" if "remaining = []"
  proof
    fix m assume m: "m \<in> set ?miners"
    show "covered (wfile v) m"
    proof (rule ccontr)
      assume "\<not> covered (wfile v) m"
      then have "m \<in> set (candidates (wfile v) ?miners)" using m by (simp add: candidates_def)
      then have "m \<in> set remaining" using candidates_in_remaining[OF dist] r by simp
      then show False using that by simp
    qed
  qed
  have 1: "remaining = [] \<longleftrightarrow> (\<forall>m \<in> set ?miners. covered (wfile v) m)"
    using all_imp imp_all by blast
  have bt: "batch = take 8 (candidates (wfile v) ?miners)"
    using miners_loop_batch[of 0 "wfile v" ?miners "wfile v" ?miners "[]"] b
    by (simp add: get_miners_to_query_def)
  have 2: "batch \<noteq> [] \<longrightarrow> remaining \<noteq> []"
  proof
    assume "batch \<noteq> []"
    then obtain m where "m \<in> set batch" by (cases batch) auto
    then have "m \<in> set (candidates (wfile v) ?miners)" using bt by (auto dest: in_set_takeD)
    then have "m \<in> set remaining" using candidates_in_remaining[OF dist] r by simp
    then show "remaining \<noteq> []" by auto
  qed
  have 3: "remaining \<noteq> [] \<longrightarrow> events (snd (validate_step e v)) = events v"
    using validate_step_no_finalize_events[OF reg part] by blast
  have keep: "remaining \<noteq> [] \<longrightarrow>
            (\<forall>u. (\<forall>m' \<in> set ?miners. uid m' = u \<longrightarrow> covered (wfile v) m')
                 \<longrightarrow> map_of (wfile (snd (validate_step e v))) u = map_of (wfile v) u)"
    using non_final_step_keeps_record[OF part] by blast
  have 4: "remaining = [] \<longrightarrow>
            validate_step e v =
              (case get_scores e (fst (miner_prompt e)) (snd (snd (miner_prompt e))) [] of
                 Inl err \<Rightarrow>
                   (Inl err, v\<lparr>self_uid := fold (\<lambda>(u, s) acc. if s = val_ss58 v then Some u else acc)
                                               (modules_keys e) (self_uid v)\<rparr>)
               | Inr scores \<Rightarrow>
                   finalize_cycle e
                     (v\<lparr>self_uid := fold (\<lambda>(u, s) acc. if s = val_ss58 v then Some u else acc)
                                        (modules_keys e) (self_uid v)\<rparr>))"
    using validate_step_finalizes[OF reg] imp_all by blast
  have 5: "\<forall>w. fst (finalize_cycle e w) = Inr () \<longrightarrow> wfile (snd (finalize_cycle e w)) = []"
    using finalize_cycle_resets by blast
  from 1 2 3 keep 4 5 show ?thesis by (intro conjI)
qed

lemma covered_example_partition:
  "get_miners_to_query (wfile (example_validator\<lparr>wfile := [(1, mk_record ''a'' 1)]\<rparr>))
     (get_miner_ip_port (modules example_env)) = ([(1, mk_record ''a'' 1)], [], [])"
  by (simp add: example_env_def example_validator_def get_miner_ip_port_def
        get_miners_to_query_def mk_miner_def mk_record_def)

lemma stranger_partition:
  "get_miners_to_query (wfile (example_validator\<lparr>wfile := [(7, mk_record ''z'' 3)]\<rparr>))
     (get_miner_ip_port (modules example_env))
     = ([(7, mk_record ''z'' 3)], [mk_miner 1 ''a''], [mk_miner 1 ''a''])"
  by (simp add: example_env_def example_validator_def get_miner_ip_port_def
        get_miners_to_query_def mk_miner_def mk_record_def)

text \<open>
  The hypotheses of the amended C1 hold twice for the example validator: with a file that
  covers the only eligible miner, the scorer returns on the empty batch and the step is
  the final block; with a file that holds only the record of a uid absent from the
  snapshot, the step queries the miner, casts no vote and keeps that record.
\<close>

theorem finalization_when_all_covered_witness:
  "val_ss58 (example_validator\<lparr>wfile := [(1, mk_record ''a'' 1)]\<rparr>)
      \<in> snd ` set (modules_keys example_env)
   \<and> distinct (map uid (get_miner_ip_port (modules example_env)))
   \<and> covered [(1, mk_record ''a'' 1)] (mk_miner 1 ''a'')
   \<and> get_scores example_env (fst (miner_prompt example_env))
         (snd (snd (miner_prompt example_env))) [] = Inr []
   \<and> validate_step example_env (example_validator\<lparr>wfile := [(1, mk_record ''a'' 1)]\<rparr>) =
       finalize_cycle example_env
         (example_validator\<lparr>wfile := [(1, mk_record ''a'' 1)], self_uid := Some 0\<rparr>)
   \<and> [mk_miner 1 ''a''] \<noteq> []
   \<and> events (snd (validate_step example_env
                    (example_validator\<lparr>wfile := [(7, mk_record ''z'' 3)]\<rparr>))) = []
   \<and> map_of (wfile (snd (validate_step example_env
                    (example_validator\<lparr>wfile := [(7, mk_record ''z'' 3)]\<rparr>)))) 7
       = Some (mk_record ''z'' 3)"
proof -
  have reg: "val_ss58 (example_validator\<lparr>wfile := [(1, mk_record ''a'' 1)]\<rparr>)
               \<in> snd ` set (modules_keys example_env)"
    by (simp add: example_env_def example_validator_def)
  have reg2: "val_ss58 (example_validator\<lparr>wfile := [(7, mk_record ''z'' 3)]\<rparr>)
               \<in> snd ` set (modules_keys example_env)"
    by (simp add: example_env_def example_validator_def)
  have dist: "distinct (map uid (get_miner_ip_port (modules example_env)))"
    by (simp add: example_env_def get_miner_ip_port_def mk_miner_def)
  have c: "covered [(1, mk_record ''a'' 1)] (mk_miner 1 ''a'')"
    by (simp add: covered_def mk_miner_def mk_record_def)
  have g: "get_scores example_env (fst (miner_prompt example_env))
             (snd (snd (miner_prompt example_env))) [] = Inr []"
    by (simp add: example_env_def)
  note t = finalization_when_all_covered[OF reg dist covered_example_partition]
  have f: "validate_step example_env (example_validator\<lparr>wfile := [(1, mk_record ''a'' 1)]\<rparr>) =
       finalize_cycle example_env
         (example_validator\<lparr>wfile := [(1, mk_record ''a'' 1)], self_uid := Some 0\<rparr>)"
    using t g by (simp add: example_env_def example_validator_def)
  note t2 = finalization_when_all_covered[OF reg2 dist stranger_partition]
  have ne: "[mk_miner 1 ''a''] \<noteq> []" by simp
  have ev: "events (snd (validate_step example_env
                    (example_validator\<lparr>wfile := [(7, mk_record ''z'' 3)]\<rparr>))) = []"
    using t2 ne by (simp add: example_validator_def)
  have "\<forall>m' \<in> set (get_miner_ip_port (modules example_env)). uid m' = 7 \<longrightarrow>
          covered (wfile (example_validator\<lparr>wfile := [(7, mk_record ''z'' 3)]\<rparr>)) m'"
    by (simp add: example_env_def get_miner_ip_port_def mk_miner_def)
  then have "map_of (wfile (snd (validate_step example_env
                    (example_validator\<lparr>wfile := [(7, mk_record ''z'' 3)]\<rparr>)))) 7
       = map_of (wfile (example_validator\<lparr>wfile := [(7, mk_record ''z'' 3)]\<rparr>)) 7"
    using t2 ne by blast
  then have k: "map_of (wfile (snd (validate_step example_env
                    (example_validator\<lparr>wfile := [(7, mk_record ''z'' 3)]\<rparr>)))) 7
       = Some (mk_record ''z'' 3)" by simp
  from reg dist c g f ne ev k show ?thesis by (intro conjI)
qed

text \<open>
  Claim C9: on an empty dictionary of scores the first \<^verbatim>\<open>normalize_scores\<close> raises
  \<^verbatim>\<open>ValueError\<close> and \<^verbatim>\<open>set_weights\<close> returns no weights; a step of a registered
  validator with no eligible miner and an empty file, whose scorer returns on the empty
  batch, ends with that exception.
\<close>

theorem empty_score_map_raises:
  "weighted_scores sq su [] = Inl ValueError
   \<and> set_weights e v [] = (Inl ValueError, v)
   \<and> (val_ss58 v \<in> snd ` set (modules_keys e) \<longrightarrow>
        get_miner_ip_port (modules e) = [] \<longrightarrow> wfile v = [] \<longrightarrow>
        (\<exists>scores. get_scores e (fst (miner_prompt e)) (snd (snd (miner_prompt e))) [] = Inr scores) \<longrightarrow>
        fst (validate_step e v) = Inl ValueError)"
proof (intro conjI impI)
  show "weighted_scores sq su [] = Inl ValueError" by (rule weighted_scores_Nil)
  show "set_weights e v [] = (Inl ValueError, v)"
    by (simp add: set_weights_def weighted_scores_Nil)
next
  assume reg: "val_ss58 v \<in> snd ` set (modules_keys e)"
    and nil: "get_miner_ip_port (modules e) = []" and f: "wfile v = []"
    and sc: "\<exists>scores. get_scores e (fst (miner_prompt e)) (snd (snd (miner_prompt e))) [] = Inr scores"
  have "\<forall>m \<in> set (get_miner_ip_port (modules e)). covered (wfile v) m" using nil by simp
  from validate_step_finalizes[OF reg this] sc f
  show "fst (validate_step e v) = Inl ValueError"
    by (auto simp: finalize_cycle_def set_weights_def weighted_scores_Nil)
qed

text \<open>
  The hypotheses of C9 hold for the example environment without modules.
\<close>

theorem empty_score_map_raises_witness:
  "val_ss58 example_validator \<in> snd ` set (modules_keys (example_env\<lparr>modules := []\<rparr>))
   \<and> get_miner_ip_port (modules (example_env\<lparr>modules := []\<rparr>)) = []
   \<and> wfile example_validator = []
   \<and> fst (validate_step (example_env\<lparr>modules := []\<rparr>) example_validator) = Inl ValueError"
  using empty_score_map_raises[of "\<lambda>x. x" "None :: int option" "example_env\<lparr>modules := []\<rparr>"
          example_validator]
  by (simp add: example_env_def example_validator_def get_miner_ip_port_def)

lemma set_weights_retry:
  assumes ws: "weighted_scores (squash e) (map_option IntKey (self_uid v)) s_dict = Inr ws"
    and fail: "\<not> vote e 0 (client v)"
  shows "fst (set_weights e v s_dict) = (if vote e 1 (node_url e) then Inr () else Inl VoteError)"
    and "events (snd (set_weights e v s_dict)) =
           events v @ [Vote (client v) (map fst ws) (map snd ws), Sleep (1 + rnd e),
                       Vote (node_url e) (map fst ws) (map snd ws)]"
    and "wfile (snd (set_weights e v s_dict)) = wfile v"
    and "client (snd (set_weights e v s_dict)) = node_url e"
  using assms by (simp_all add: set_weights_def Let_def)

lemma validation_loop_raises:
  "fst (validate_step e w) = Inl err \<Longrightarrow> validation_loop (e # es) w = validate_step e w"
  by (cases "validate_step e w") auto

text \<open>
  Claim C4, amended: when the weights are computed and the first vote raises, the final
  block sleeps \<open>1 + random()\<close>, between 1 and 2, and votes once more through a client on
  the node \<^verbatim>\<open>get_node_url\<close> gives; when the second vote succeeds the file is reset; when
  it raises, the exception leaves the final block with the file as it was, and a step that
  ends with it ends the loop with it.
\<close>

theorem second_vote_failure_ends_loop:
  assumes ws: "weighted_scores (squash e) (map_option IntKey (self_uid v))
                 (map (\<lambda>(u, d). (StrKey u, score d)) (wfile v)) = Inr ws"
    and fail: "\<not> vote e 0 (client v)"
    and rnd: "0 \<le> rnd e" "rnd e < 1"
  shows "events (snd (finalize_cycle e v)) =
           events v @ [Vote (client v) (map fst ws) (map snd ws), Sleep (1 + rnd e),
                       Vote (node_url e) (map fst ws) (map snd ws)]
       \<and> 1 \<le> 1 + rnd e \<and> 1 + rnd e < 2
       \<and> (vote e 1 (node_url e) \<longrightarrow>
            fst (finalize_cycle e v) = Inr () \<and> wfile (snd (finalize_cycle e v)) = [])
       \<and> (\<not> vote e 1 (node_url e) \<longrightarrow>
            fst (finalize_cycle e v) = Inl VoteError
            \<and> wfile (snd (finalize_cycle e v)) = wfile v)
       \<and> (\<forall>w es. fst (validate_step e w) = Inl VoteError \<longrightarrow>
            validation_loop (e # es) w = validate_step e w)"
proof -
  note sw = set_weights_retry[OF ws fail]
  obtain res v4 where p: "set_weights e v (map (\<lambda>(u, d). (StrKey u, score d)) (wfile v)) = (res, v4)"
    by (cases "set_weights e v (map (\<lambda>(u, d). (StrKey u, score d)) (wfile v))")
  have res: "res = (if vote e 1 (node_url e) then Inr () else Inl VoteError)"
    and ev: "events v4 = events v @ [Vote (client v) (map fst ws) (map snd ws), Sleep (1 + rnd e),
                       Vote (node_url e) (map fst ws) (map snd ws)]"
    and wf4: "wfile v4 = wfile v"
    using sw p by simp_all
  have 1: "events (snd (finalize_cycle e v)) =
           events v @ [Vote (client v) (map fst ws) (map snd ws), Sleep (1 + rnd e),
                       Vote (node_url e) (map fst ws) (map snd ws)]"
    using p res ev by (simp add: finalize_cycle_def)
  have 2: "1 \<le> 1 + rnd e \<and> 1 + rnd e < 2" using rnd by simp
  have 3: "vote e 1 (node_url e) \<longrightarrow>
            fst (finalize_cycle e v) = Inr () \<and> wfile (snd (finalize_cycle e v)) = []"
    using p res by (simp add: finalize_cycle_def)
  have 4: "\<not> vote e 1 (node_url e) \<longrightarrow>
            fst (finalize_cycle e v) = Inl VoteError
            \<and> wfile (snd (finalize_cycle e v)) = wfile v"
    using p res wf4 by (simp add: finalize_cycle_def)
  have 5: "\<forall>w es. fst (validate_step e w) = Inl VoteError \<longrightarrow>
            validation_loop (e # es) w = validate_step e w"
    using validation_loop_raises by blast
  from 1 2 3 4 5 show ?thesis by blast
qed

lemma failing_example_weights:
  "weighted_scores (squash failing_env) (map_option IntKey (self_uid covered_validator))
     (map (\<lambda>(u, d). (StrKey u, score d)) (wfile covered_validator)) = Inr [(StrKey 1, 1)]"
  by (simp add: failing_env_def covered_validator_def example_env_def example_validator_def
        mk_record_def weighted_scores_def normalize_scores_def sigmoid_rewards_def)

text \<open>
  The hypotheses of the amended C4 hold for an environment in which every vote fails.
\<close>

theorem second_vote_failure_ends_loop_witness:
  "\<not> vote failing_env 0 (client covered_validator)
   \<and> 0 \<le> rnd failing_env \<and> rnd failing_env < 1
   \<and> events (snd (finalize_cycle failing_env covered_validator)) =
        [Vote 0 [StrKey 1] [1], Sleep (3 / 2), Vote 1 [StrKey 1] [1]]
   \<and> fst (finalize_cycle failing_env covered_validator) = Inl VoteError
   \<and> wfile (snd (finalize_cycle failing_env covered_validator)) = [(1, mk_record ''a'' 1)]"
  using second_vote_failure_ends_loop[OF failing_example_weights]
  by (simp add: failing_env_def covered_validator_def example_env_def example_validator_def)

text \<open>
  Claim C4, as stated, fails: with two ticks scheduled, the first in an environment whose
  votes fail, the loop ends in the first tick with the exception of the second vote, after
  one retry and with the file kept; the second tick, which would have succeeded, never
  runs.
\<close>

theorem failed_submission_stops_loop:
  "fst (validation_loop [failing_env, example_env] covered_validator) = Inl VoteError
   \<and> events (snd (validation_loop [failing_env, example_env] covered_validator)) =
        [Vote 0 [StrKey 1] [1], Sleep (3 / 2), Vote 1 [StrKey 1] [1]]
   \<and> wfile (snd (validation_loop [failing_env, example_env] covered_validator)) =
        [(1, mk_record ''a'' 1)]
   \<and> fst (validation_loop [example_env] covered_validator) = Inr ()"
  by (simp add: failing_env_def covered_validator_def example_env_def example_validator_def
        validate_step_def get_miner_ip_port_def get_miners_to_query_def mk_miner_def mk_record_def
        finalize_cycle_def set_weights_def weighted_scores_def normalize_scores_def
        sigmoid_rewards_def Let_def)

end
